theory Spec2Isabelle
  imports Main
begin

section \<open>Strings of the runtime\<close>

text \<open>
  A Python \<open>str\<close> is a sequence of code points. It is modelled as a \<open>string\<close> whose
  characters are the code points 0 to 255; the character classes below are those of
  the Python runtime (\<open>str.isspace\<close>, \<open>str.isalnum\<close>, \<open>str.lower\<close>) on that range.
\<close>

definition code_point :: "char \<Rightarrow> nat" where
  "code_point c = of_char c"

text \<open>\<open>str.isspace\<close>, which is also the class \<open>\s\<close> of \<open>re\<close> on a \<open>str\<close> pattern.\<close>

definition isspace :: "char \<Rightarrow> bool" where
  "isspace c =
     (let n = code_point c
      in (9 \<le> n \<and> n \<le> 13) \<or> (28 \<le> n \<and> n \<le> 32) \<or> n = 133 \<or> n = 160)"

text \<open>\<open>str.isalnum\<close>: letters, decimal digits and the other numeric characters.\<close>

definition isalnum :: "char \<Rightarrow> bool" where
  "isalnum c =
     (let n = code_point c
      in (48 \<le> n \<and> n \<le> 57) \<or> (65 \<le> n \<and> n \<le> 90) \<or> (97 \<le> n \<and> n \<le> 122)
         \<or> n = 170 \<or> n = 178 \<or> n = 179 \<or> n = 181 \<or> n = 185 \<or> n = 186
         \<or> (188 \<le> n \<and> n \<le> 190)
         \<or> (192 \<le> n \<and> n \<le> 214) \<or> (216 \<le> n \<and> n \<le> 246) \<or> (248 \<le> n \<and> n \<le> 255))"

text \<open>The class \<open>\w\<close> of \<open>re\<close>: alphanumeric or the underscore.\<close>

definition re_word :: "char \<Rightarrow> bool" where
  "re_word c = (isalnum c \<or> c = CHR ''_'')"

definition re_space :: "char \<Rightarrow> bool" where
  "re_space c = isspace c"

definition lower_char :: "char \<Rightarrow> char" where
  "lower_char c =
     (let n = code_point c
      in if (65 \<le> n \<and> n \<le> 90) \<or> (192 \<le> n \<and> n \<le> 222 \<and> n \<noteq> 215)
         then char_of (n + 32) else c)"

text \<open>\<open>s.lower()\<close>\<close>

definition str_lower :: "string \<Rightarrow> string" where
  "str_lower s = map lower_char s"

text \<open>\<open>re.sub(r'[^\w\s]', '', s)\<close>: every character matching the class is replaced by
  the empty string, the others are kept in order.\<close>

definition re_not_word_space :: "char \<Rightarrow> bool" where
  "re_not_word_space c = (\<not> (re_word c \<or> re_space c))"

definition re_sub_not_word_space :: "string \<Rightarrow> string" where
  "re_sub_not_word_space s = filter (\<lambda>c. \<not> re_not_word_space c) s"

text \<open>\<open>s.split()\<close> with no separator: skip whitespace, take the run of characters up to the
  next whitespace, repeat until the string is exhausted.\<close>

function str_split :: "string \<Rightarrow> string list" where
  "str_split s =
     (case dropWhile isspace s of
        [] \<Rightarrow> []
      | c # cs \<Rightarrow> takeWhile (\<lambda>x. \<not> isspace x) (c # cs)
                 # str_split (dropWhile (\<lambda>x. \<not> isspace x) (c # cs)))"
  by pat_completeness auto
termination
proof (relation "measure length")
  show "wf (measure length)" by simp
next
  fix s :: string and c cs
  assume h: "dropWhile isspace s = c # cs"
  have "\<not> isspace c"
    using h hd_dropWhile [of isspace s] by auto
  then have "length (dropWhile (\<lambda>x. \<not> isspace x) (c # cs)) \<le> length cs"
    by (simp add: length_dropWhile_le)
  moreover have "length (c # cs) \<le> length s"
    using h length_dropWhile_le [of isspace s] by simp
  ultimately show "(dropWhile (\<lambda>x. \<not> isspace x) (c # cs), s) \<in> measure length"
    by simp
qed

declare str_split.simps [simp del]

section \<open>Dictionaries\<close>

text \<open>
  A Python \<open>dict\<close> keeps its keys unique and in insertion order: an association list.
  Counts are Python integers.
\<close>

type_synonym 'k dict = "('k \<times> int) list"

text \<open>\<open>d.get(k, default)\<close>\<close>

definition dict_get :: "'k dict \<Rightarrow> 'k \<Rightarrow> int \<Rightarrow> int" where
  "dict_get d k dflt = (case map_of d k of None \<Rightarrow> dflt | Some v \<Rightarrow> v)"

text \<open>\<open>d[k] = v\<close>: an existing key keeps its position, a new key goes last.\<close>

fun dict_set :: "'k dict \<Rightarrow> 'k \<Rightarrow> int \<Rightarrow> 'k dict" where
  "dict_set [] k v = [(k, v)]"
| "dict_set ((k', v') # d) k v =
     (if k' = k then (k', v) # d else (k', v') # dict_set d k v)"

text \<open>\<open>k in d\<close>\<close>

definition dict_contains :: "'k dict \<Rightarrow> 'k \<Rightarrow> bool" where
  "dict_contains d k = (k \<in> set (map fst d))"

text \<open>\<open>Counter(words)\<close>: for each element in turn, \<open>d[w] = d.get(w, 0) + 1\<close>.\<close>

definition Counter :: "'k list \<Rightarrow> 'k dict" where
  "Counter ws = fold (\<lambda>w d. dict_set d w (dict_get d w 0 + 1)) ws []"

section \<open>Word counting\<close>

definition count_repeated_words :: "string \<Rightarrow> string dict" where
  "count_repeated_words txt =
     (let cleaned = re_sub_not_word_space (str_lower txt);
          words = str_split cleaned;
          counter = Counter words;
          repeated = filter (\<lambda>(word, count). count > 1) counter
      in repeated)"

definition count_common_repeated_words :: "string \<Rightarrow> string \<Rightarrow> string dict" where
  "count_common_repeated_words text1 text2 =
     (let repeated1 = count_repeated_words text1;
          repeated2 = count_repeated_words text2;
          common = map (\<lambda>word. (word, min (dict_get repeated1 word 0) (dict_get repeated2 word 0)))
                     (filter (\<lambda>word. dict_contains repeated2 word) (map fst repeated1))
      in common)"

section \<open>Text extraction\<close>

text \<open>
  \<open>s.split(sep)\<close> for a one-character separator: the string is cut at every separator,
  empty pieces are kept, and the result is never empty. The first argument of
  \<open>split_fields\<close> is the piece read so far.
\<close>

fun split_fields :: "(char \<Rightarrow> bool) \<Rightarrow> string \<Rightarrow> string \<Rightarrow> string list" where
  "split_fields is_sep cur [] = [cur]"
| "split_fields is_sep cur (c # cs) =
     (if is_sep c then cur # split_fields is_sep [] cs
      else split_fields is_sep (cur @ [c]) cs)"

definition str_split_sep :: "char \<Rightarrow> string \<Rightarrow> string list" where
  "str_split_sep sep s = split_fields (\<lambda>c. c = sep) [] s"

text \<open>\<open>sep.join(xs)\<close>\<close>

fun str_join :: "string \<Rightarrow> string list \<Rightarrow> string" where
  "str_join sep [] = []"
| "str_join sep [x] = x"
| "str_join sep (x # y # ys) = x @ sep @ str_join sep (y # ys)"

text \<open>\<open>x or ""\<close> for \<open>x\<close> a \<open>str\<close> or \<open>None\<close>\<close>

fun or_empty :: "string option \<Rightarrow> string" where
  "or_empty None = []"
| "or_empty (Some t) = (if t = [] then [] else t)"

text \<open>
  The exceptions raised inside \<open>extract_text\<close>: its own \<open>ValueError\<close>, carrying the
  extension, and whatever the PDF library raises, carrying the message \<open>str(e)\<close>.
\<close>

datatype extract_error = UnsupportedFileType string | ReaderError string

text \<open>\<open>str(e)\<close>\<close>

fun str_error :: "extract_error \<Rightarrow> string" where
  "str_error (UnsupportedFileType ext) =
     ''Unsupported file type: '' @ ext @ ''. Only PDF files are supported.''"
| "str_error (ReaderError msg) = msg"

text \<open>
  The file system: the contents of the files and the directories that exist, both by
  path. Paths are compared as written, which is exact for paths made of plain names
  (no empty, \<open>.\<close> or \<open>..\<close> component).
\<close>

record filesystem =
  files :: "string \<rightharpoonup> string"
  dirs :: "string set"

text \<open>
  The PDF library, \<open>PdfReader(file_path)\<close> followed by \<open>extract_text()\<close> of each page,
  is a parameter: a function of the contents of the file (\<open>None\<close> when there is no such
  file) that gives the message of the exception it raises, or the texts of the pages
  (\<open>None\<close> for a page without text).
\<close>

type_synonym pdf_reader = "string option \<Rightarrow> string + string option list"

definition extract_text :: "pdf_reader \<Rightarrow> filesystem \<Rightarrow> string \<Rightarrow> extract_error + string" where
  "extract_text reader fs file_path =
     (let ext = str_lower (last (str_split_sep (CHR ''.'') file_path))
      in if ext \<noteq> ''pdf'' then Inl (UnsupportedFileType ext)
         else (case reader (files fs file_path) of
                 Inl msg \<Rightarrow> Inl (ReaderError msg)
               | Inr pages \<Rightarrow> Inr (str_join [CHR 0x0A] (map or_empty pages))))"

section \<open>The upload handler\<close>

definition UPLOAD_FOLDER :: string where
  "UPLOAD_FOLDER = ''uploads''"

text \<open>\<open>os.path.join(a, b)\<close> on POSIX\<close>

definition os_path_join :: "string \<Rightarrow> string \<Rightarrow> string" where
  "os_path_join a b =
     (if b \<noteq> [] \<and> hd b = CHR ''/'' then b
      else if a = [] \<or> last a = CHR ''/'' then a @ b
      else a @ ''/'' @ b)"

text \<open>The directory a path lies in: the path up to its last \<open>/\<close>.\<close>

definition parent :: "string \<Rightarrow> string" where
  "parent p = rev (drop 1 (dropWhile (\<lambda>c. c \<noteq> CHR ''/'') (rev p)))"

datatype os_error = FileNotFoundError string | IsADirectoryError string

text \<open>\<open>os.makedirs(p, exist_ok=True)\<close> for a one-component path\<close>

definition os_makedirs :: "filesystem \<Rightarrow> string \<Rightarrow> filesystem" where
  "os_makedirs fs p = fs\<lparr>dirs := insert p (dirs fs)\<rparr>"

text \<open>\<open>with open(p, "wb") as buffer: shutil.copyfileobj(src, buffer)\<close>\<close>

definition open_wb :: "filesystem \<Rightarrow> string \<Rightarrow> string \<Rightarrow> os_error + filesystem" where
  "open_wb fs p src =
     (if p \<in> dirs fs then Inl (IsADirectoryError p)
      else if parent p \<notin> dirs fs then Inl (FileNotFoundError p)
      else Inr (fs\<lparr>files := (files fs)(p \<mapsto> src)\<rparr>))"

text \<open>\<open>os.remove(p)\<close>\<close>

definition os_remove :: "filesystem \<Rightarrow> string \<Rightarrow> os_error + filesystem" where
  "os_remove fs p =
     (case files fs p of
        None \<Rightarrow> Inl (if p \<in> dirs fs then IsADirectoryError p else FileNotFoundError p)
      | Some _ \<Rightarrow> Inr (fs\<lparr>files := (files fs)(p := None)\<rparr>))"

text \<open>An \<open>UploadFile\<close>: the client's file name and the bytes of \<open>.file\<close>.\<close>

record upload_file =
  filename :: string
  file_bytes :: string

text \<open>The field \<open>common_repeated_words\<close> of the response: a mapping or a string.\<close>

datatype words_or_message = Words "string dict" | Message string

record response =
  filename1 :: string
  filename2 :: string
  common_repeated_words :: words_or_message

text \<open>
  The handler returns the response body (sent with status 200), or the exception that
  leaves it uncaught (the framework then answers with status 500), together with the
  file system it leaves behind.
\<close>

definition count_common_words ::
  "pdf_reader \<Rightarrow> filesystem \<Rightarrow> upload_file \<Rightarrow> upload_file
     \<Rightarrow> (os_error + response) \<times> filesystem" where
  "count_common_words reader fs file1 file2 =
     (let file_path1 = os_path_join UPLOAD_FOLDER (filename file1);
          file_path2 = os_path_join UPLOAD_FOLDER (filename file2)
      in case open_wb fs file_path1 (file_bytes file1) of
           Inl e \<Rightarrow> (Inl e, fs)
         | Inr fs1 \<Rightarrow>
        (case open_wb fs1 file_path2 (file_bytes file2) of
           Inl e \<Rightarrow> (Inl e, fs1)
         | Inr fs2 \<Rightarrow>
        (let common =
               (case extract_text reader fs2 file_path1 of
                  Inl e \<Rightarrow> Message (''Error: '' @ str_error e)
                | Inr text1 \<Rightarrow>
               (case extract_text reader fs2 file_path2 of
                  Inl e \<Rightarrow> Message (''Error: '' @ str_error e)
                | Inr text2 \<Rightarrow> Words (count_common_repeated_words text1 text2)))
         in case os_remove fs2 file_path1 of
              Inl e \<Rightarrow> (Inl e, fs2)
            | Inr fs3 \<Rightarrow>
           (case os_remove fs3 file_path2 of
              Inl e \<Rightarrow> (Inl e, fs3)
            | Inr fs4 \<Rightarrow>
                (Inr \<lparr>filename1 = filename file1, filename2 = filename file2,
                      common_repeated_words = common\<rparr>, fs4)))))"

definition http_status :: "os_error + response \<Rightarrow> nat" where
  "http_status r = (case r of Inl e \<Rightarrow> 500 | Inr body \<Rightarrow> 200)"

text \<open>The state the server starts from: \<open>os.makedirs(UPLOAD_FOLDER, exist_ok=True)\<close> in an
  otherwise empty working directory (the empty path).\<close>

definition initial_fs :: filesystem where
  "initial_fs = os_makedirs \<lparr>files = Map.empty, dirs = {[]}\<rparr> UPLOAD_FOLDER"

section \<open>The specification's wording\<close>

text \<open>
  The tokenizer as the specification words it: lowercase the text, remove every
  character that is not a word character (alphanumeric or underscore) or whitespace,
  split on whitespace and discard the empty tokens, tally each token, keep the tokens
  counted at least twice.
\<close>

definition spec_normalize :: "string \<Rightarrow> string" where
  "spec_normalize t =
     filter (\<lambda>c. isalnum c \<or> c = CHR ''_'' \<or> isspace c) (map lower_char t)"

definition spec_tokens :: "string \<Rightarrow> string list" where
  "spec_tokens t = filter (\<lambda>w. w \<noteq> []) (split_fields isspace [] (spec_normalize t))"

text \<open>The number of times a word occurs in a text.\<close>

definition occurrences :: "string \<Rightarrow> string \<Rightarrow> int" where
  "occurrences t w = int (count_list (spec_tokens t) w)"

definition spec_repeated_words :: "string \<Rightarrow> (string \<rightharpoonup> int)" where
  "spec_repeated_words t =
     (\<lambda>w. if 2 \<le> occurrences t w then Some (occurrences t w) else None)"

text \<open>The extension of a path as the specification words it: the substring after the
  last \<open>.\<close> (the whole path if it has none), lowercased.\<close>

definition spec_extension :: "string \<Rightarrow> string" where
  "spec_extension p = map lower_char (rev (takeWhile (\<lambda>c. c \<noteq> CHR ''.'') (rev p)))"

text \<open>A plain file name: one path component that names a file.\<close>

definition plain_name :: "string \<Rightarrow> bool" where
  "plain_name n =
     (n \<noteq> [] \<and> n \<noteq> ''.'' \<and> n \<noteq> ''..'' \<and> CHR ''/'' \<notin> set n \<and> CHR 0x00 \<notin> set n)"

section \<open>Dictionaries: lookup, keys and tallies\<close>

lemma map_of_dict_set: "map_of (dict_set d k v) = (map_of d)(k \<mapsto> v)"
  by (induction d) (auto simp: fun_eq_iff)

lemma keys_dict_set: "fst ` set (dict_set d k v) = insert k (fst ` set d)"
proof -
  have "dom (map_of (dict_set d k v)) = insert k (dom (map_of d))"
    by (simp add: map_of_dict_set)
  then show ?thesis
    by (simp only: dom_map_of_conv_image_fst)
qed

lemma distinct_dict_set: "distinct (map fst d) \<Longrightarrow> distinct (map fst (dict_set d k v))"
  by (induction d) (auto simp: keys_dict_set)

lemma dict_get_dict_set:
  "dict_get (dict_set d k v) k' dflt = (if k' = k then v else dict_get d k' dflt)"
  by (simp add: dict_get_def map_of_dict_set)

lemma tally_fold_get:
  "dict_get (fold (\<lambda>w d. dict_set d w (dict_get d w 0 + 1)) ws d) k 0
     = dict_get d k 0 + int (count_list ws k)"
  by (induction ws arbitrary: d) (auto simp: dict_get_dict_set)

lemma tally_fold_keys:
  "fst ` set (fold (\<lambda>w d. dict_set d w (dict_get d w 0 + 1)) ws d)
     = fst ` set d \<union> set ws"
  by (induction ws arbitrary: d) (auto simp: keys_dict_set)

lemma tally_fold_distinct:
  "distinct (map fst d) \<Longrightarrow>
   distinct (map fst (fold (\<lambda>w d. dict_set d w (dict_get d w 0 + 1)) ws d))"
  by (induction ws arbitrary: d) (auto simp: distinct_dict_set)

lemma distinct_Counter: "distinct (map fst (Counter ws))"
  by (simp add: Counter_def tally_fold_distinct)

lemma keys_Counter: "fst ` set (Counter ws) = set ws"
  using tally_fold_keys [of ws "[]"] by (simp add: Counter_def)

lemma dict_get_Counter: "dict_get (Counter ws) k 0 = int (count_list ws k)"
  using tally_fold_get [of ws "[]" k] by (simp add: Counter_def dict_get_def)

lemma map_of_Counter:
  "map_of (Counter ws) k = (if k \<in> set ws then Some (int (count_list ws k)) else None)"
proof (cases "k \<in> set ws")
  case True
  then have "k \<in> fst ` set (Counter ws)" by (simp add: keys_Counter)
  then obtain v where v: "map_of (Counter ws) k = Some v"
    by (metis map_of_eq_None_iff not_Some_eq)
  with dict_get_Counter [of ws k] have "v = int (count_list ws k)"
    by (simp add: dict_get_def)
  with v True show ?thesis by simp
next
  case False
  then have "k \<notin> fst ` set (Counter ws)" by (simp add: keys_Counter)
  then have "map_of (Counter ws) k = None"
    by (simp add: map_of_eq_None_iff)
  with False show ?thesis by simp
qed

lemma map_of_filter_values:
  "distinct (map fst d) \<Longrightarrow>
   map_of (filter (\<lambda>(k, v). P v) d) k
     = (case map_of d k of None \<Rightarrow> None | Some v \<Rightarrow> if P v then Some v else None)"
proof (induction d)
  case Nil
  then show ?case by simp
next
  case (Cons a d)
  obtain k' v' where a: "a = (k', v')" by (cases a)
  from Cons.prems a have notin: "k' \<notin> set (map fst d)" and dist: "distinct (map fst d)"
    by auto
  from notin have none: "map_of d k' = None"
    by (simp add: map_of_eq_None_iff)
  show ?case
    using Cons.IH [OF dist] a none by (auto split: option.splits)
qed

lemma map_of_tabulate:
  "map_of (map (\<lambda>k. (k, f k)) ks) k = (if k \<in> set ks then Some (f k) else None)"
  by (induction ks) auto

section \<open>Splitting\<close>

lemma str_split_Nil: "str_split [] = []"
  by (simp add: str_split.simps)

lemma str_split_space: "isspace c \<Longrightarrow> str_split (c # cs) = str_split cs"
  by (simp add: str_split.simps [of "c # cs"] str_split.simps [of cs])

lemma str_split_word:
  "\<not> isspace c \<Longrightarrow>
   str_split (c # cs)
     = (c # takeWhile (\<lambda>x. \<not> isspace x) cs) # str_split (dropWhile (\<lambda>x. \<not> isspace x) cs)"
  by (simp add: str_split.simps [of "c # cs"])

lemma split_fields_str_split:
  "filter (\<lambda>w. w \<noteq> []) (split_fields isspace cur s)
     = (if cur = [] then str_split s
        else (cur @ takeWhile (\<lambda>x. \<not> isspace x) s)
               # str_split (dropWhile (\<lambda>x. \<not> isspace x) s))"
proof (induction s arbitrary: cur)
  case Nil
  then show ?case by (simp add: str_split_Nil)
next
  case (Cons c cs)
  show ?case
  proof (cases "isspace c")
    case True
    then show ?thesis
      using Cons.IH [of "[]"] by (simp add: str_split_space)
  next
    case False
    then show ?thesis
      using Cons.IH [of "cur @ [c]"] by (simp add: str_split_word)
  qed
qed

lemma str_split_spec: "str_split s = filter (\<lambda>w. w \<noteq> []) (split_fields isspace [] s)"
  by (simp add: split_fields_str_split)

lemma cleaned_spec: "re_sub_not_word_space (str_lower t) = spec_normalize t"
  by (simp add: re_sub_not_word_space_def re_not_word_space_def re_word_def re_space_def
      str_lower_def spec_normalize_def disj_assoc)

lemma words_spec: "str_split (re_sub_not_word_space (str_lower t)) = spec_tokens t"
  by (simp add: cleaned_spec str_split_spec spec_tokens_def)

lemma split_fields_not_Nil: "split_fields is_sep cur s \<noteq> []"
  by (induction s arbitrary: cur) auto

lemma last_split_fields:
  "last (split_fields (\<lambda>c. c = sep) cur s)
     = (if sep \<in> set s then rev (takeWhile (\<lambda>c. c \<noteq> sep) (rev s)) else cur @ s)"
proof (induction s arbitrary: cur)
  case Nil
  then show ?case by simp
next
  case (Cons c cs)
  show ?case
  proof (cases "c = sep")
    case True
    then show ?thesis
      using Cons.IH [of "[]"] by (simp add: split_fields_not_Nil takeWhile_append)
  next
    case False
    then show ?thesis
      using Cons.IH [of "cur @ [c]"] by (auto simp: takeWhile_append)
  qed
qed

lemma last_str_split_sep:
  "last (str_split_sep sep s) = rev (takeWhile (\<lambda>c. c \<noteq> sep) (rev s))"
proof (cases "sep \<in> set s")
  case True
  then show ?thesis by (simp add: str_split_sep_def last_split_fields)
next
  case False
  then have a: "last (str_split_sep sep s) = s"
    by (simp add: str_split_sep_def last_split_fields)
  from False have "takeWhile (\<lambda>c. c \<noteq> sep) (rev s) = rev s"
    by (auto simp: takeWhile_eq_all_conv)
  then have b: "rev (takeWhile (\<lambda>c. c \<noteq> sep) (rev s)) = s"
    by (simp only: rev_rev_ident)
  from a b show ?thesis by (simp only:)
qed

section \<open>The repeated words and the common repeated words, by lookup\<close>

lemma distinct_count_repeated_words: "distinct (map fst (count_repeated_words t))"
  by (simp add: count_repeated_words_def distinct_Counter distinct_map_filter)

lemma map_of_count_repeated_words:
  "map_of (count_repeated_words t) w
     = (if 2 \<le> occurrences t w then Some (occurrences t w) else None)"
proof -
  have "map_of (count_repeated_words t) w
          = (case map_of (Counter (spec_tokens t)) w of
               None \<Rightarrow> None | Some v \<Rightarrow> if 1 < v then Some v else None)"
    by (simp add: count_repeated_words_def words_spec map_of_filter_values distinct_Counter)
  also have "\<dots> = (if 2 \<le> occurrences t w then Some (occurrences t w) else None)"
  proof (cases "w \<in> set (spec_tokens t)")
    case True
    then show ?thesis by (simp add: map_of_Counter occurrences_def)
  next
    case False
    then have "count_list (spec_tokens t) w = 0" by (simp add: count_list_0_iff)
    with False show ?thesis by (simp add: map_of_Counter occurrences_def)
  qed
  finally show ?thesis .
qed

lemma keys_count_repeated_words:
  "w \<in> fst ` set (count_repeated_words t) \<longleftrightarrow> 2 \<le> occurrences t w"
proof -
  have "w \<in> fst ` set (count_repeated_words t) \<longleftrightarrow> map_of (count_repeated_words t) w \<noteq> None"
    by (simp add: map_of_eq_None_iff)
  then show ?thesis by (simp add: map_of_count_repeated_words)
qed

lemma dict_get_count_repeated_words:
  "dict_get (count_repeated_words t) w 0 = (if 2 \<le> occurrences t w then occurrences t w else 0)"
  by (simp add: dict_get_def map_of_count_repeated_words)

lemma keys_common:
  "map fst (count_common_repeated_words t1 t2)
     = filter (\<lambda>w. dict_contains (count_repeated_words t2) w) (map fst (count_repeated_words t1))"
  by (simp add: count_common_repeated_words_def Let_def comp_def)

lemma distinct_common: "distinct (map fst (count_common_repeated_words t1 t2))"
  by (simp only: keys_common distinct_filter distinct_count_repeated_words)

lemma map_of_common:
  "map_of (count_common_repeated_words t1 t2) w
     = (if 2 \<le> occurrences t1 w \<and> 2 \<le> occurrences t2 w
        then Some (min (occurrences t1 w) (occurrences t2 w)) else None)"
proof -
  have "map_of (count_common_repeated_words t1 t2) w
          = (if w \<in> fst ` set (count_repeated_words t1) \<and> w \<in> fst ` set (count_repeated_words t2)
             then Some (min (dict_get (count_repeated_words t1) w 0)
                            (dict_get (count_repeated_words t2) w 0))
             else None)"
    by (simp add: count_common_repeated_words_def Let_def map_of_tabulate dict_contains_def)
  then show ?thesis
    by (simp add: keys_count_repeated_words dict_get_count_repeated_words)
qed

lemma common_key:
  "w \<in> fst ` set (count_common_repeated_words t1 t2)
     \<longleftrightarrow> 2 \<le> occurrences t1 w \<and> 2 \<le> occurrences t2 w"
proof -
  have "w \<in> fst ` set (count_common_repeated_words t1 t2)
          \<longleftrightarrow> map_of (count_common_repeated_words t1 t2) w \<noteq> None"
    by (simp add: map_of_eq_None_iff)
  then show ?thesis by (simp add: map_of_common)
qed

lemma common_entry:
  "(w, v) \<in> set (count_common_repeated_words t1 t2) \<longleftrightarrow>
     2 \<le> occurrences t1 w \<and> 2 \<le> occurrences t2 w
     \<and> v = min (occurrences t1 w) (occurrences t2 w)"
proof -
  have "(w, v) \<in> set (count_common_repeated_words t1 t2)
          \<longleftrightarrow> map_of (count_common_repeated_words t1 t2) w = Some v"
    using distinct_common [of t1 t2] by simp
  then show ?thesis by (auto simp: map_of_common)
qed

lemma repeated_entry:
  "(w, v) \<in> set (count_repeated_words t) \<longleftrightarrow> 2 \<le> occurrences t w \<and> v = occurrences t w"
proof -
  have "(w, v) \<in> set (count_repeated_words t) \<longleftrightarrow> map_of (count_repeated_words t) w = Some v"
    using distinct_count_repeated_words [of t] by simp
  then show ?thesis by (auto simp: map_of_count_repeated_words)
qed

section \<open>The claims on word counting\<close>

text \<open>
  Claim C1. For all texts \<open>t1\<close> and \<open>t2\<close>, \<open>count_common_repeated_words t1 t2\<close> holds
  exactly the words that occur at least twice in \<open>t1\<close> and at least twice in \<open>t2\<close>, each
  once, and maps each to the smaller of its two occurrence counts; a word that occurs
  exactly once in one of the texts is not a key of the result.
\<close>

theorem common_repeated_words_exact:
  "map_of (count_common_repeated_words t1 t2) w
     = (if 2 \<le> occurrences t1 w \<and> 2 \<le> occurrences t2 w
        then Some (min (occurrences t1 w) (occurrences t2 w)) else None)
   \<and> distinct (map fst (count_common_repeated_words t1 t2))
   \<and> fst ` set (count_common_repeated_words t1 t2)
        = {w. 2 \<le> occurrences t1 w \<and> 2 \<le> occurrences t2 w}
   \<and> (occurrences t1 w = 1 \<or> occurrences t2 w = 1
        \<longrightarrow> w \<notin> fst ` set (count_common_repeated_words t1 t2))"
proof -
  have keys: "fst ` set (count_common_repeated_words t1 t2)
                = {w. 2 \<le> occurrences t1 w \<and> 2 \<le> occurrences t2 w}"
    by (rule set_eqI) (simp add: common_key)
  then have "occurrences t1 w = 1 \<or> occurrences t2 w = 1
               \<longrightarrow> w \<notin> fst ` set (count_common_repeated_words t1 t2)"
    by auto
  with keys show ?thesis
    by (simp only: map_of_common distinct_common simp_thms)
qed

text \<open>The word \<open>x\<close> repeats in both texts, the word \<open>y\<close> repeats in the first one only.\<close>

theorem common_repeated_words_exact_witness:
  "2 \<le> occurrences ''x x x y y'' ''x'' \<and> 2 \<le> occurrences ''x x x x x z z y'' ''x''
   \<and> map_of (count_common_repeated_words ''x x x y y'' ''x x x x x z z y'') ''x'' = Some 3
   \<and> occurrences ''x x x x x z z y'' ''y'' = 1
   \<and> ''y'' \<notin> fst ` set (count_common_repeated_words ''x x x y y'' ''x x x x x z z y'')"
proof -
  have o1: "occurrences ''x x x y y'' ''x'' = 3" by code_simp
  have o2: "occurrences ''x x x x x z z y'' ''x'' = 5" by code_simp
  have o3: "occurrences ''x x x x x z z y'' ''y'' = 1" by code_simp
  from common_repeated_words_exact [of "''x x x y y''" "''x x x x x z z y''" "''x''"]
       common_repeated_words_exact [of "''x x x y y''" "''x x x x x z z y''" "''y''"]
       o1 o2 o3
  show ?thesis by simp
qed

text \<open>
  Claim C3. Every entry of \<open>count_common_repeated_words t1 t2\<close> has its key in
  \<open>count_repeated_words t1\<close> and in \<open>count_repeated_words t2\<close> with a count of at least 1
  in both, and its value exceeds neither of the two counts.
\<close>

theorem common_within_sources:
  "(w, v) \<in> set (count_common_repeated_words t1 t2) \<Longrightarrow>
   \<exists>c1 c2. map_of (count_repeated_words t1) w = Some c1
          \<and> map_of (count_repeated_words t2) w = Some c2
          \<and> 1 \<le> c1 \<and> 1 \<le> c2 \<and> v \<le> c1 \<and> v \<le> c2"
  by (simp add: common_entry map_of_count_repeated_words)

text \<open>The word \<open>the\<close> occurs three times in each of the two sentences.\<close>

theorem common_within_sources_witness:
  "(''the'', 3) \<in> set (count_common_repeated_words ''the cat sat on the mat the cat ran''
                         ''the dog sat near the mat and the dog ran'')
   \<and> (\<exists>c1 c2. map_of (count_repeated_words ''the cat sat on the mat the cat ran'') ''the'' = Some c1
          \<and> map_of (count_repeated_words ''the dog sat near the mat and the dog ran'') ''the'' = Some c2
          \<and> 1 \<le> c1 \<and> 1 \<le> c2 \<and> (3::int) \<le> c1 \<and> 3 \<le> c2)"
proof -
  have h: "(''the'', 3) \<in> set (count_common_repeated_words ''the cat sat on the mat the cat ran''
                         ''the dog sat near the mat and the dog ran'')"
    by code_simp
  from common_within_sources [OF h] h show ?thesis by simp
qed

text \<open>
  Claim C4. The empty text gives the empty mapping, and with the empty text on either
  side the common repeated words are the empty mapping, whatever the other text is.
\<close>

theorem empty_text_no_error:
  "count_repeated_words [] = []
   \<and> count_common_repeated_words [] t = []
   \<and> count_common_repeated_words t [] = []"
proof -
  have e: "count_repeated_words [] = []"
    by (simp add: count_repeated_words_def str_lower_def re_sub_not_word_space_def
        str_split_Nil Counter_def)
  have "count_common_repeated_words [] t = []"
    by (simp add: count_common_repeated_words_def e)
  moreover have "count_common_repeated_words t [] = []"
    by (simp add: count_common_repeated_words_def e dict_contains_def)
  ultimately show ?thesis using e by simp
qed

text \<open>
  Claim C9. \<open>count_common_repeated_words t1 t2\<close> and \<open>count_common_repeated_words t2 t1\<close>
  have the same keys with the same values: they are equal as mappings and as sets of
  entries. (The order of the entries follows the first text and may differ.)
\<close>

theorem common_commutes:
  "map_of (count_common_repeated_words t1 t2) = map_of (count_common_repeated_words t2 t1)
   \<and> set (count_common_repeated_words t1 t2) = set (count_common_repeated_words t2 t1)"
proof
  show "map_of (count_common_repeated_words t1 t2) = map_of (count_common_repeated_words t2 t1)"
    by (rule ext) (simp add: map_of_common min.commute conj_commute)
next
  show "set (count_common_repeated_words t1 t2) = set (count_common_repeated_words t2 t1)"
  proof (rule set_eqI)
    fix e :: "string \<times> int"
    obtain w v where e: "e = (w, v)" by (cases e)
    show "e \<in> set (count_common_repeated_words t1 t2) \<longleftrightarrow> e \<in> set (count_common_repeated_words t2 t1)"
      unfolding e common_entry by (auto simp: min.commute)
  qed
qed

text \<open>Two texts whose results hold the same entries in different orders.\<close>

theorem common_commutes_witness:
  "map_of (count_common_repeated_words ''b b a a a'' ''a a b b b'') ''a'' = Some 2
   \<and> map_of (count_common_repeated_words ''a a b b b'' ''b b a a a'') ''a'' = Some 2
   \<and> count_common_repeated_words ''b b a a a'' ''a a b b b'' = [(''b'', 2), (''a'', 2)]
   \<and> count_common_repeated_words ''a a b b b'' ''b b a a a'' = [(''a'', 2), (''b'', 2)]"
proof -
  have a: "count_common_repeated_words ''b b a a a'' ''a a b b b'' = [(''b'', 2), (''a'', 2)]"
    by code_simp
  have b: "count_common_repeated_words ''a a b b b'' ''b b a a a'' = [(''a'', 2), (''b'', 2)]"
    by code_simp
  have "map_of (count_common_repeated_words ''b b a a a'' ''a a b b b'') ''a'' = Some 2"
    by (simp add: a)
  with common_commutes [of "''b b a a a''" "''a a b b b''"] a b show ?thesis
    by simp
qed

text \<open>
  Claim C10. Every value of \<open>count_repeated_words t\<close> is at least 2, and so is every
  value of \<open>count_common_repeated_words t1 t2\<close>.
\<close>

theorem repeated_counts_at_least_two:
  "(\<forall>(w, c) \<in> set (count_repeated_words t). 2 \<le> c)
   \<and> (\<forall>(w, c) \<in> set (count_common_repeated_words t1 t2). 2 \<le> c)"
  by (auto simp: repeated_entry common_entry)

text \<open>Both results are inhabited on these texts.\<close>

theorem repeated_counts_at_least_two_witness:
  "(''a'', 2) \<in> set (count_repeated_words ''a a b'') \<and> (2::int) \<le> 2
   \<and> (''x'', 3) \<in> set (count_common_repeated_words ''x x x y y'' ''x x x x x z z'') \<and> (2::int) \<le> 3"
proof -
  have a: "(''a'', 2) \<in> set (count_repeated_words ''a a b'')" by code_simp
  have b: "(''x'', 3) \<in> set (count_common_repeated_words ''x x x y y'' ''x x x x x z z'')"
    by code_simp
  from repeated_counts_at_least_two [of "''a a b''" "''x x x y y''" "''x x x x x z z''"] a b
  show ?thesis by auto
qed

text \<open>
  Claim C2. As a mapping, \<open>count_repeated_words t\<close> is what the specification describes:
  lowercase, drop what is neither a word character nor whitespace, split on whitespace
  discarding empty tokens, tally, keep the counts of at least 2; its keys are unique.
  In particular \<open>"Cat, cat CAT."\<close> gives \<open>{"cat": 3}\<close> and \<open>"a a b"\<close> gives \<open>{"a": 2}\<close>.
\<close>

theorem repeated_words_refines_spec:
  "map_of (count_repeated_words t) = spec_repeated_words t
   \<and> distinct (map fst (count_repeated_words t))
   \<and> count_repeated_words ''Cat, cat CAT.'' = [(''cat'', 3)]
   \<and> count_repeated_words ''a a b'' = [(''a'', 2)]"
proof -
  have "map_of (count_repeated_words t) = spec_repeated_words t"
    by (rule ext) (simp add: map_of_count_repeated_words spec_repeated_words_def)
  moreover have "count_repeated_words ''Cat, cat CAT.'' = [(''cat'', 3)]"
    by code_simp
  moreover have "count_repeated_words ''a a b'' = [(''a'', 2)]"
    by code_simp
  ultimately show ?thesis
    by (simp only: distinct_count_repeated_words simp_thms)
qed

text \<open>A token that is kept and a token that is dropped by the threshold.\<close>

theorem repeated_words_refines_spec_witness:
  "2 \<le> occurrences ''Cat, cat CAT.'' ''cat''
   \<and> spec_repeated_words ''Cat, cat CAT.'' ''cat'' = Some 3
   \<and> map_of (count_repeated_words ''Cat, cat CAT.'') ''cat'' = Some 3
   \<and> spec_repeated_words ''a a b'' ''b'' = None
   \<and> map_of (count_repeated_words ''a a b'') ''b'' = None"
proof -
  have o: "occurrences ''Cat, cat CAT.'' ''cat'' = 3" by code_simp
  have p: "occurrences ''a a b'' ''b'' = 1" by code_simp
  from repeated_words_refines_spec [of "''Cat, cat CAT.''"]
       repeated_words_refines_spec [of "''a a b''"] o p
  show ?thesis by (simp add: spec_repeated_words_def)
qed

section \<open>The claim on text extraction\<close>

lemma extension_spec: "str_lower (last (str_split_sep (CHR ''.'') p)) = spec_extension p"
  by (simp add: last_str_split_sep str_lower_def spec_extension_def)

lemma spec_extension_suffix:
  assumes "CHR ''.'' \<notin> set suf"
  shows "spec_extension (pre @ ''.'' @ suf) = str_lower suf"
proof -
  have "takeWhile (\<lambda>c. c \<noteq> CHR ''.'') (rev suf @ CHR ''.'' # rev pre) = rev suf"
    using assms by (auto simp: takeWhile_append)
  then show ?thesis
    by (simp add: spec_extension_def str_lower_def)
qed

lemma spec_extension_no_dot:
  assumes "CHR ''.'' \<notin> set p"
  shows "spec_extension p = str_lower p"
proof -
  from assms have "takeWhile (\<lambda>c. c \<noteq> CHR ''.'') (rev p) = rev p"
    by (auto simp: takeWhile_eq_all_conv)
  then have "rev (takeWhile (\<lambda>c. c \<noteq> CHR ''.'') (rev p)) = p"
    by (simp only: rev_rev_ident)
  then show ?thesis
    by (simp only: spec_extension_def str_lower_def)
qed

lemma extract_text_unsupported:
  "spec_extension p \<noteq> ''pdf''
     \<Longrightarrow> extract_text reader fs p = Inl (UnsupportedFileType (spec_extension p))"
  by (simp add: extract_text_def extension_spec)

lemma extract_text_pdf:
  "spec_extension p = ''pdf''
     \<Longrightarrow> extract_text reader fs p
          = (case reader (files fs p) of
               Inl msg \<Rightarrow> Inl (ReaderError msg)
             | Inr pages \<Rightarrow> Inr (str_join [CHR 0x0A] (map or_empty pages)))"
  by (simp add: extract_text_def extension_spec)

text \<open>
  Claim C5. \<open>extract_text\<close> raises its unsupported-file-type error exactly when the
  extension of the path (what follows the last \<open>.\<close>, or the whole path if there is none,
  lowercased) is not \<open>pdf\<close>, and the error carries that extension; with the extension
  \<open>pdf\<close>, in any letter case, it goes on to the PDF reader and returns what the
  reader gives.
\<close>

theorem extract_text_unsupported_iff:
  "((\<exists>e. extract_text reader fs p = Inl (UnsupportedFileType e)) \<longleftrightarrow> spec_extension p \<noteq> ''pdf'')
   \<and> (spec_extension p \<noteq> ''pdf''
        \<longrightarrow> extract_text reader fs p = Inl (UnsupportedFileType (spec_extension p)))
   \<and> (spec_extension p = ''pdf''
        \<longrightarrow> extract_text reader fs p
              = (case reader (files fs p) of
                   Inl msg \<Rightarrow> Inl (ReaderError msg)
                 | Inr pages \<Rightarrow> Inr (str_join [CHR 0x0A] (map or_empty pages))))
   \<and> (CHR ''.'' \<notin> set suf \<longrightarrow> spec_extension (pre @ ''.'' @ suf) = str_lower suf)
   \<and> (CHR ''.'' \<notin> set p \<longrightarrow> spec_extension p = str_lower p)"
proof -
  have c: "(\<exists>e. extract_text reader fs p = Inl (UnsupportedFileType e)) \<longleftrightarrow> spec_extension p \<noteq> ''pdf''"
  proof (cases "spec_extension p = ''pdf''")
    case True
    then show ?thesis by (simp add: extract_text_pdf split: sum.splits)
  next
    case False
    then show ?thesis by (simp add: extract_text_unsupported)
  qed
  have d: "CHR ''.'' \<notin> set suf \<longrightarrow> spec_extension (pre @ ''.'' @ suf) = str_lower suf"
    using spec_extension_suffix [of suf pre] by (rule impI)
  have e: "CHR ''.'' \<notin> set p \<longrightarrow> spec_extension p = str_lower p"
    using spec_extension_no_dot [of p] by (rule impI)
  have a: "spec_extension p \<noteq> ''pdf''
        \<longrightarrow> extract_text reader fs p = Inl (UnsupportedFileType (spec_extension p))"
    using extract_text_unsupported [of p reader fs] by (rule impI)
  have b: "spec_extension p = ''pdf''
        \<longrightarrow> extract_text reader fs p
              = (case reader (files fs p) of
                   Inl msg \<Rightarrow> Inl (ReaderError msg)
                 | Inr pages \<Rightarrow> Inr (str_join [CHR 0x0A] (map or_empty pages)))"
    using extract_text_pdf [of p reader fs] by (rule impI)
  show ?thesis
    by (rule conjI [OF c conjI [OF a conjI [OF b conjI [OF d e]]]])
qed

text \<open>A text file, a PDF with an upper-case extension, and a name without a dot.\<close>

theorem extract_text_unsupported_iff_witness:
  "spec_extension ''uploads/notes.txt'' \<noteq> ''pdf''
   \<and> extract_text (\<lambda>c. Inr []) initial_fs ''uploads/notes.txt'' = Inl (UnsupportedFileType ''txt'')
   \<and> spec_extension ''uploads/Report.PDF'' = ''pdf''
   \<and> extract_text (\<lambda>c. Inr [Some ''ab'', None, Some ''c'']) initial_fs ''uploads/Report.PDF''
        = Inr [CHR ''a'', CHR ''b'', CHR 0x0A, CHR 0x0A, CHR ''c'']
   \<and> CHR ''.'' \<notin> set ''PDF'' \<and> spec_extension (''uploads/Report'' @ ''.'' @ ''PDF'') = ''pdf''
   \<and> CHR ''.'' \<notin> set ''README'' \<and> spec_extension ''README'' = ''readme''"
proof -
  have n: "spec_extension ''uploads/notes.txt'' = ''txt''" by code_simp
  have r: "spec_extension ''uploads/Report.PDF'' = ''pdf''" by code_simp
  have l1: "str_lower ''PDF'' = ''pdf''" by code_simp
  have l2: "str_lower ''README'' = ''readme''" by code_simp
  from extract_text_unsupported_iff
         [of "\<lambda>c. Inr []" initial_fs "''uploads/notes.txt''" "''PDF''" "''uploads/Report''"]
       extract_text_unsupported_iff
         [of "\<lambda>c. Inr [Some ''ab'', None, Some ''c'']" initial_fs "''uploads/Report.PDF''"
             "''PDF''" "''uploads/Report''"]
       extract_text_unsupported_iff
         [of "\<lambda>c. Inr []" initial_fs "''README''" "''PDF''" "''uploads/Report''"]
       n r l1 l2
  show ?thesis by simp
qed

section \<open>The claims on the upload handler\<close>

lemma join_plain: "plain_name n \<Longrightarrow> os_path_join UPLOAD_FOLDER n = ''uploads/'' @ n"
  by (cases n) (auto simp: plain_name_def os_path_join_def UPLOAD_FOLDER_def)

lemma parent_plain: "plain_name n \<Longrightarrow> parent (''uploads/'' @ n) = UPLOAD_FOLDER"
proof -
  assume "plain_name n"
  then have "\<forall>c \<in> set (rev n). c \<noteq> CHR ''/''"
    by (auto simp: plain_name_def)
  then have "dropWhile (\<lambda>c. c \<noteq> CHR ''/'') (rev n @ ''/sdaolpu'') = ''/sdaolpu''"
    by (simp add: dropWhile_append)
  then show ?thesis
    by (simp add: parent_def UPLOAD_FOLDER_def)
qed

lemma dirs_initial_fs: "dirs initial_fs = {''uploads'', []}"
  by (simp add: initial_fs_def os_makedirs_def UPLOAD_FOLDER_def)

lemma files_initial_fs: "files initial_fs = Map.empty"
  by (simp add: initial_fs_def os_makedirs_def)

text \<open>
  With two different plain file names, the upload folder in place and no directory in
  the way, the handler answers with status 200, reports both file names, turns an error
  of the extraction into the string \<open>Error: <message>\<close>, and removes both files.
\<close>

lemma handler_plain_names:
  assumes n1: "plain_name (filename file1)" and n2: "plain_name (filename file2)"
    and ne: "filename file1 \<noteq> filename file2"
    and up: "UPLOAD_FOLDER \<in> dirs fs"
    and d1: "os_path_join UPLOAD_FOLDER (filename file1) \<notin> dirs fs"
    and d2: "os_path_join UPLOAD_FOLDER (filename file2) \<notin> dirs fs"
  shows "\<exists>common.
     count_common_words reader fs file1 file2
       = (Inr \<lparr>filename1 = filename file1, filename2 = filename file2,
               common_repeated_words = common\<rparr>,
          fs\<lparr>files := (files fs)(os_path_join UPLOAD_FOLDER (filename file1) := None,
                                  os_path_join UPLOAD_FOLDER (filename file2) := None)\<rparr>)
     \<and> (\<forall>e. extract_text reader
                (fs\<lparr>files := (files fs)
                   (os_path_join UPLOAD_FOLDER (filename file1) \<mapsto> file_bytes file1,
                    os_path_join UPLOAD_FOLDER (filename file2) \<mapsto> file_bytes file2)\<rparr>)
                (os_path_join UPLOAD_FOLDER (filename file1)) = Inl e
            \<longrightarrow> common = Message (''Error: '' @ str_error e))"
proof -
  let ?p1 = "os_path_join UPLOAD_FOLDER (filename file1)"
  let ?p2 = "os_path_join UPLOAD_FOLDER (filename file2)"
  have j1: "?p1 = ''uploads/'' @ filename file1" using n1 by (rule join_plain)
  have j2: "?p2 = ''uploads/'' @ filename file2" using n2 by (rule join_plain)
  have neq: "?p1 \<noteq> ?p2" using ne by (simp add: j1 j2)
  have pa1: "parent ?p1 \<in> dirs fs" using up parent_plain [OF n1] by (simp add: j1)
  have pa2: "parent ?p2 \<in> dirs fs" using up parent_plain [OF n2] by (simp add: j2)
  have o1: "open_wb fs ?p1 (file_bytes file1)
              = Inr (fs\<lparr>files := (files fs)(?p1 \<mapsto> file_bytes file1)\<rparr>)"
    using d1 pa1 by (simp add: open_wb_def)
  have o2: "open_wb (fs\<lparr>files := (files fs)(?p1 \<mapsto> file_bytes file1)\<rparr>) ?p2 (file_bytes file2)
              = Inr (fs\<lparr>files := (files fs)(?p1 \<mapsto> file_bytes file1, ?p2 \<mapsto> file_bytes file2)\<rparr>)"
    using d2 pa2 by (simp add: open_wb_def)
  have r1: "os_remove (fs\<lparr>files := (files fs)(?p1 \<mapsto> file_bytes file1, ?p2 \<mapsto> file_bytes file2)\<rparr>) ?p1
              = Inr (fs\<lparr>files := (files fs)(?p1 := None, ?p2 \<mapsto> file_bytes file2)\<rparr>)"
    using neq by (simp add: os_remove_def fun_upd_twist)
  have r2: "os_remove (fs\<lparr>files := (files fs)(?p1 := None, ?p2 \<mapsto> file_bytes file2)\<rparr>) ?p2
              = Inr (fs\<lparr>files := (files fs)(?p1 := None, ?p2 := None)\<rparr>)"
    by (simp add: os_remove_def)
  show ?thesis
    unfolding count_common_words_def Let_def o1 o2 r1 r2 sum.case
    by (auto split: sum.splits)
qed

text \<open>
  Claim C6: whenever extraction or analysis raises, the endpoint still answers with
  status 200 and the string \<open>Error: <message>\<close>. The code does not do so when the two
  uploads carry the same file name: both are written to the same path, extraction of
  the text file raises the unsupported-file-type error, which is caught, the first
  \<open>os.remove\<close> deletes the file and the second one raises \<open>FileNotFoundError\<close>, which
  nothing catches. The request ends with status 500.
\<close>

theorem same_name_uploads_crash:
  "extract_text reader fs ''uploads/notes.txt'' = Inl (UnsupportedFileType ''txt'')
   \<and> fst (count_common_words reader initial_fs
            \<lparr>filename = ''notes.txt'', file_bytes = b1\<rparr>
            \<lparr>filename = ''notes.txt'', file_bytes = b2\<rparr>)
       = Inl (FileNotFoundError ''uploads/notes.txt'')
   \<and> http_status (fst (count_common_words reader initial_fs
            \<lparr>filename = ''notes.txt'', file_bytes = b1\<rparr>
            \<lparr>filename = ''notes.txt'', file_bytes = b2\<rparr>)) = 500"
proof -
  let ?p = "''uploads/notes.txt''"
  have ext: "spec_extension ?p = ''txt''" by code_simp
  have e: "\<And>fs. extract_text reader fs ?p = Inl (UnsupportedFileType ''txt'')"
    using extract_text_unsupported [of ?p reader] by (simp add: ext)
  have j: "os_path_join UPLOAD_FOLDER ''notes.txt'' = ?p"
    by (simp add: os_path_join_def UPLOAD_FOLDER_def)
  have p: "parent ?p = ''uploads''"
    by (simp add: parent_def)
  have o1: "open_wb initial_fs ?p b1 = Inr (initial_fs\<lparr>files := [?p \<mapsto> b1]\<rparr>)"
    by (simp add: open_wb_def p dirs_initial_fs files_initial_fs)
  have o2: "open_wb (initial_fs\<lparr>files := [?p \<mapsto> b1]\<rparr>) ?p b2
              = Inr (initial_fs\<lparr>files := [?p \<mapsto> b2]\<rparr>)"
    by (simp add: open_wb_def p dirs_initial_fs)
  have r1: "os_remove (initial_fs\<lparr>files := [?p \<mapsto> b2]\<rparr>) ?p
              = Inr (initial_fs\<lparr>files := Map.empty\<rparr>)"
    by (simp add: os_remove_def)
  have r2: "os_remove (initial_fs\<lparr>files := Map.empty\<rparr>) ?p = Inl (FileNotFoundError ?p)"
    by (simp add: os_remove_def dirs_initial_fs)
  have r: "fst (count_common_words reader initial_fs
            \<lparr>filename = ''notes.txt'', file_bytes = b1\<rparr>
            \<lparr>filename = ''notes.txt'', file_bytes = b2\<rparr>)
       = Inl (FileNotFoundError ?p)"
    by (simp add: count_common_words_def Let_def j o1 o2 e r1 r2)
  from e r show ?thesis by (simp add: http_status_def)
qed

text \<open>
  Claim C7: both temporary files are deleted on every exit path. The code does not do so
  when the second upload cannot be written: the file name \<open>sub/b.pdf\<close> names a
  directory that does not exist, \<open>open\<close> raises \<open>FileNotFoundError\<close> before the
  \<open>try\<close> block and the two \<open>os.remove\<close> calls are never reached. The first upload
  stays in the upload folder.
\<close>

theorem failed_second_upload_leaves_first:
  "count_common_words reader initial_fs
       \<lparr>filename = ''a.pdf'', file_bytes = b1\<rparr>
       \<lparr>filename = ''sub/b.pdf'', file_bytes = b2\<rparr>
     = (Inl (FileNotFoundError ''uploads/sub/b.pdf''),
        initial_fs\<lparr>files := [''uploads/a.pdf'' \<mapsto> b1]\<rparr>)
   \<and> files (snd (count_common_words reader initial_fs
       \<lparr>filename = ''a.pdf'', file_bytes = b1\<rparr>
       \<lparr>filename = ''sub/b.pdf'', file_bytes = b2\<rparr>)) ''uploads/a.pdf'' = Some b1"
proof -
  let ?p1 = "''uploads/a.pdf''" and ?p2 = "''uploads/sub/b.pdf''"
  have j1: "os_path_join UPLOAD_FOLDER ''a.pdf'' = ?p1"
    by (simp add: os_path_join_def UPLOAD_FOLDER_def)
  have j2: "os_path_join UPLOAD_FOLDER ''sub/b.pdf'' = ?p2"
    by (simp add: os_path_join_def UPLOAD_FOLDER_def)
  have p1: "parent ?p1 = ''uploads''"
    by (simp add: parent_def)
  have p2: "parent ?p2 = ''uploads/sub''"
    by (simp add: parent_def)
  have o1: "open_wb initial_fs ?p1 b1 = Inr (initial_fs\<lparr>files := [?p1 \<mapsto> b1]\<rparr>)"
    by (simp add: open_wb_def p1 dirs_initial_fs files_initial_fs)
  have o2: "open_wb (initial_fs\<lparr>files := [?p1 \<mapsto> b1]\<rparr>) ?p2 b2 = Inl (FileNotFoundError ?p2)"
    by (simp add: open_wb_def p2 dirs_initial_fs)
  have r: "count_common_words reader initial_fs
       \<lparr>filename = ''a.pdf'', file_bytes = b1\<rparr>
       \<lparr>filename = ''sub/b.pdf'', file_bytes = b2\<rparr>
     = (Inl (FileNotFoundError ?p2), initial_fs\<lparr>files := [?p1 \<mapsto> b1]\<rparr>)"
    by (simp add: count_common_words_def Let_def j1 j2 o1 o2)
  then show ?thesis by simp
qed

end
